theory Spec2Isabelle
  imports Complex_Main
begin

section \<open>JavaScript numbers\<close>

text \<open>
  The program computes with JavaScript numbers. They are modelled as exact real numbers
  extended by the three non-finite values a JavaScript number can take: \<open>Infinity\<close>,
  \<open>-Infinity\<close> and \<open>NaN\<close>. The operations below follow the language's rules for
  these values (a comparison with \<open>NaN\<close> is false, \<open>0/0\<close> is \<open>NaN\<close>, a non-zero
  number divided by zero is an infinity). Rounding, overflow and the sign of zero are
  not modelled: finite results are exact, and a zero divisor counts as \<open>+0\<close> (every
  divisor of this program is a result of \<open>Math.hypot\<close>, which is never \<open>-0\<close>).

  One consequence matters beyond the last digits. \<open>Math.PI\<close> is \<open>\<pi>\<close> here and the
  cosine is exact, so \<open>Math_cos\<close> is zero at the odd multiples of \<open>\<pi>/2\<close>, while
  \<open>Math.cos\<close> of a double never is; \<open>Math.sign\<close> of such a value is \<open>0\<close> here and
  \<open>1\<close> or \<open>-1\<close> in the program. No example below evaluates the program at such an
  angle with a finite distance: a computed curvature that is exactly zero is shown at an
  infinite distance only, where the quotient is zero whatever the cosine is.
\<close>

datatype jsnum = Fin real | PInf | NInf | NaN

instantiation jsnum :: "{uminus, plus, minus, times, inverse, ord}"
begin

fun uminus_jsnum :: "jsnum \<Rightarrow> jsnum" where
  "uminus_jsnum (Fin a) = Fin (- a)"
| "uminus_jsnum PInf = NInf"
| "uminus_jsnum NInf = PInf"
| "uminus_jsnum NaN = NaN"

fun plus_jsnum :: "jsnum \<Rightarrow> jsnum \<Rightarrow> jsnum" where
  "plus_jsnum (Fin a) (Fin b) = Fin (a + b)"
| "plus_jsnum NaN _ = NaN"
| "plus_jsnum _ NaN = NaN"
| "plus_jsnum PInf NInf = NaN"
| "plus_jsnum NInf PInf = NaN"
| "plus_jsnum PInf _ = PInf"
| "plus_jsnum _ PInf = PInf"
| "plus_jsnum NInf _ = NInf"
| "plus_jsnum _ NInf = NInf"

definition minus_jsnum :: "jsnum \<Rightarrow> jsnum \<Rightarrow> jsnum" where
  "minus_jsnum a b = a + (- b)"

fun times_jsnum :: "jsnum \<Rightarrow> jsnum \<Rightarrow> jsnum" where
  "times_jsnum (Fin a) (Fin b) = Fin (a * b)"
| "times_jsnum NaN _ = NaN"
| "times_jsnum _ NaN = NaN"
| "times_jsnum PInf (Fin b) = (if b = 0 then NaN else if 0 < b then PInf else NInf)"
| "times_jsnum NInf (Fin b) = (if b = 0 then NaN else if 0 < b then NInf else PInf)"
| "times_jsnum (Fin a) PInf = (if a = 0 then NaN else if 0 < a then PInf else NInf)"
| "times_jsnum (Fin a) NInf = (if a = 0 then NaN else if 0 < a then NInf else PInf)"
| "times_jsnum PInf PInf = PInf"
| "times_jsnum PInf NInf = NInf"
| "times_jsnum NInf PInf = NInf"
| "times_jsnum NInf NInf = PInf"

fun divide_jsnum :: "jsnum \<Rightarrow> jsnum \<Rightarrow> jsnum" where
  "divide_jsnum (Fin a) (Fin b) =
     (if b = 0 then (if a = 0 then NaN else if 0 < a then PInf else NInf)
      else Fin (a / b))"
| "divide_jsnum NaN _ = NaN"
| "divide_jsnum _ NaN = NaN"
| "divide_jsnum (Fin a) _ = Fin 0"
| "divide_jsnum PInf (Fin b) = (if 0 \<le> b then PInf else NInf)"
| "divide_jsnum NInf (Fin b) = (if 0 \<le> b then NInf else PInf)"
| "divide_jsnum _ _ = NaN"

definition inverse_jsnum :: "jsnum \<Rightarrow> jsnum" where
  "inverse_jsnum a = divide (Fin 1) a"

fun less_jsnum :: "jsnum \<Rightarrow> jsnum \<Rightarrow> bool" where
  "less_jsnum (Fin a) (Fin b) = (a < b)"
| "less_jsnum NaN _ = False"
| "less_jsnum _ NaN = False"
| "less_jsnum NInf (Fin b) = True"
| "less_jsnum NInf PInf = True"
| "less_jsnum (Fin a) PInf = True"
| "less_jsnum _ _ = False"

definition less_eq_jsnum :: "jsnum \<Rightarrow> jsnum \<Rightarrow> bool" where
  "less_eq_jsnum a b = (a < b \<or> (a = b \<and> a \<noteq> NaN))"

instance ..

end

text \<open>\<open>a % b\<close>: the remainder has the sign of the dividend and is exact.\<close>

definition trunc :: "real \<Rightarrow> int" where
  "trunc r = (if 0 \<le> r then \<lfloor>r\<rfloor> else \<lceil>r\<rceil>)"

fun js_rem :: "jsnum \<Rightarrow> jsnum \<Rightarrow> jsnum" where
  "js_rem (Fin a) (Fin b) = (if b = 0 then NaN else Fin (a - b * of_int (trunc (a / b))))"
| "js_rem (Fin a) PInf = Fin a"
| "js_rem (Fin a) NInf = Fin a"
| "js_rem _ _ = NaN"

definition Math_PI :: jsnum where
  "Math_PI = Fin pi"

text \<open>\<open>Math.hypot\<close>: an infinite argument wins over \<open>NaN\<close>.\<close>

fun Math_hypot :: "jsnum \<Rightarrow> jsnum \<Rightarrow> jsnum" where
  "Math_hypot (Fin a) (Fin b) = Fin (sqrt (a * a + b * b))"
| "Math_hypot PInf _ = PInf"
| "Math_hypot NInf _ = PInf"
| "Math_hypot _ PInf = PInf"
| "Math_hypot _ NInf = PInf"
| "Math_hypot _ _ = NaN"

text \<open>The angle of the point \<open>(x, y)\<close>, in \<open>(-\<pi>, \<pi>]\<close>, and \<open>0\<close> at the origin.\<close>

definition atan2 :: "real \<Rightarrow> real \<Rightarrow> real" where
  "atan2 b a =
     (if 0 < a then arctan (b / a)
      else if a < 0 then (if 0 \<le> b then arctan (b / a) + pi else arctan (b / a) - pi)
      else if 0 < b then pi / 2
      else if b < 0 then - (pi / 2)
      else 0)"

fun Math_atan2 :: "jsnum \<Rightarrow> jsnum \<Rightarrow> jsnum" where
  "Math_atan2 (Fin b) (Fin a) = Fin (atan2 b a)"
| "Math_atan2 NaN _ = NaN"
| "Math_atan2 _ NaN = NaN"
| "Math_atan2 (Fin b) PInf = Fin 0"
| "Math_atan2 (Fin b) NInf = (if 0 \<le> b then Fin pi else Fin (- pi))"
| "Math_atan2 PInf (Fin a) = Fin (pi / 2)"
| "Math_atan2 NInf (Fin a) = Fin (- (pi / 2))"
| "Math_atan2 PInf PInf = Fin (pi / 4)"
| "Math_atan2 PInf NInf = Fin (3 * pi / 4)"
| "Math_atan2 NInf PInf = Fin (- (pi / 4))"
| "Math_atan2 NInf NInf = Fin (- (3 * pi / 4))"

fun Math_cos :: "jsnum \<Rightarrow> jsnum" where
  "Math_cos (Fin a) = Fin (cos a)"
| "Math_cos _ = NaN"

fun Math_sin :: "jsnum \<Rightarrow> jsnum" where
  "Math_sin (Fin a) = Fin (sin a)"
| "Math_sin _ = NaN"

fun Math_abs :: "jsnum \<Rightarrow> jsnum" where
  "Math_abs (Fin a) = Fin \<bar>a\<bar>"
| "Math_abs PInf = PInf"
| "Math_abs NInf = PInf"
| "Math_abs NaN = NaN"

fun Math_sign :: "jsnum \<Rightarrow> jsnum" where
  "Math_sign (Fin a) = Fin (sgn a)"
| "Math_sign PInf = Fin 1"
| "Math_sign NInf = Fin (- 1)"
| "Math_sign NaN = NaN"

section \<open>Waypoints and segments\<close>

record waypoint =
  x :: jsnum
  y :: jsnum

record segment =
  x1 :: jsnum
  y1 :: jsnum
  x2 :: jsnum
  y2 :: jsnum
  dx :: jsnum
  dy :: jsnum
  ndx :: jsnum
  ndy :: jsnum
  length_seg :: jsnum
  angle :: jsnum

text \<open>The body of the loop of \<open>getSegments\<close>: the segment from one waypoint to the next.\<close>

definition segmentOf :: "waypoint \<Rightarrow> waypoint \<Rightarrow> segment" where
  "segmentOf w1 w2 =
     (let x1 = x w1; y1 = y w1;
          x2 = x w2; y2 = y w2;
          dx = x2 - x1; dy = y2 - y1;
          length = Math_hypot dx dy;
          ndx = dx / length; ndy = dy / length;
          angle = Math_atan2 dy dx
      in \<lparr>x1 = x1, y1 = y1, x2 = x2, y2 = y2, dx = dx, dy = dy,
          ndx = ndx, ndy = ndy, length_seg = length, angle = angle\<rparr>)"

text \<open>
  \<open>getSegments\<close> reads the global \<open>waypoints\<close>, here its argument. The loop runs over
  \<open>i = 0 .. waypoints.length - 2\<close>: it does nothing on fewer than two waypoints.
\<close>

fun getSegments :: "waypoint list \<Rightarrow> segment list" where
  "getSegments (w1 # w2 # ws) = segmentOf w1 w2 # getSegments (w2 # ws)"
| "getSegments _ = []"

section \<open>Pure pursuit control\<close>

definition PURSUIT_DIST :: jsnum where
  "PURSUIT_DIST = Fin 70"

definition ROBOT_SPEED :: jsnum where
  "ROBOT_SPEED = Fin 180"

definition MIN_TURN_RADIUS :: jsnum where
  "MIN_TURN_RADIUS = Fin 50"

definition SKIP_DIST :: jsnum where
  "SKIP_DIST = Fin 40"

text \<open>The global variables of the program that the controller reads and writes.\<close>

record state =
  waypoints :: "waypoint list"
  segments :: "segment list"
  curSeg :: nat
  robotX :: jsnum
  robotY :: jsnum
  robotDir :: jsnum
  ppRunning :: bool

text \<open>
  Reading a property of \<open>undefined\<close> (an array element out of range) throws a
  \<open>TypeError\<close>. A function that can throw returns the error or its result, together
  with the state as its assignments have left it at that point.
\<close>

datatype error = TypeError

record pursuit =
  radiusInv :: jsnum
  badRadius :: bool
  px0 :: jsnum
  py0 :: jsnum
  px :: jsnum
  py :: jsnum

text \<open>\<open>{done: true}\<close>, or the six values with \<open>done: false\<close>.\<close>

datatype result = Done | Tracking pursuit

definition stopPP :: "state \<Rightarrow> state" where
  "stopPP s = s\<lparr>ppRunning := False\<rparr>"

text \<open>
  The first loop of \<open>updatePP\<close>, from \<open>curSeg = cur\<close>: the index it stops at, and at a
  \<open>break\<close> the values of \<open>d\<close>, \<open>px0\<close> and \<open>py0\<close>.
\<close>

function closest :: "segment list \<Rightarrow> jsnum \<Rightarrow> jsnum \<Rightarrow> nat \<Rightarrow> nat \<times> (jsnum \<times> jsnum \<times> jsnum) option" where
  "closest segs rX rY cur =
     (if cur < length segs then
        (let seg = segs ! cur;
             x = rX - x1 seg;
             y = rY - y1 seg;
             d = x * ndx seg + y * ndy seg;
             d = d / length_seg seg
         in if d < Fin 1 then
              (let d = (if d < Fin 0 then Fin 0 else d)
               in (cur, Some (d, x1 seg + d * dx seg, y1 seg + d * dy seg)))
            else closest segs rX rY (Suc cur))
      else (cur, None))"
  by pat_completeness auto
termination
  by (relation "measure (\<lambda>(segs, rX, rY, cur). length segs - cur)") auto

text \<open>
  The second loop, from \<open>i\<close> with the distance \<open>d\<close>: the index it stops at and the value
  of \<open>d\<close> there. It stops below \<open>segments.length\<close> exactly at a \<open>break\<close>.
\<close>

function ahead :: "segment list \<Rightarrow> nat \<Rightarrow> jsnum \<Rightarrow> nat \<times> jsnum" where
  "ahead segs i d =
     (if i < length segs then
        (let seg = segs ! i
         in if d + length_seg seg > PURSUIT_DIST then (i, PURSUIT_DIST - d)
            else ahead segs (Suc i) (d + length_seg seg))
      else (i, d))"
  by pat_completeness auto
termination
  by (relation "measure (\<lambda>(segs, i, d). length segs - i)") auto

text \<open>
  The pursuit point: the index \<open>i\<close> of its segment, \<open>px\<close> and \<open>py\<close>. It is computed
  only after a \<open>break\<close> of the first loop, so \<open>cur < segments.length\<close>, the second loop
  runs at least once, and after its last round \<open>seg\<close> is the last segment.
\<close>

definition pursuitPoint :: "segment list \<Rightarrow> nat \<Rightarrow> jsnum \<Rightarrow> nat \<times> jsnum \<times> jsnum" where
  "pursuitPoint segs cur d0 =
     (let d = - d0 * length_seg (segs ! cur);
          (i, d) = ahead segs cur d;
          (i, seg, d) =
            (if i = length segs then (i - 1, segs ! (i - 1), length_seg (segs ! (i - 1)))
             else (i, segs ! i, d))
      in (i, x1 seg + d * ndx seg, y1 seg + d * ndy seg))"

definition normalizeAngle :: "jsnum \<Rightarrow> jsnum" where
  "normalizeAngle a0 =
     (let a = js_rem a0 (Fin 2 * Math_PI)
      in if a < Fin 0 then a + Fin 2 * Math_PI else a)"

text \<open>The angle \<open>a\<close> and the reciprocal of the arc radius, \<open>d\<close> being the distance to the pursuit point.\<close>

definition arcAngle :: "jsnum \<Rightarrow> jsnum \<Rightarrow> jsnum \<Rightarrow> jsnum" where
  "arcAngle pdy pdx rDir = Math_PI / Fin 2 - (Math_atan2 pdy pdx - rDir)"

definition arcRadiusInv :: "jsnum \<Rightarrow> jsnum \<Rightarrow> jsnum" where
  "arcRadiusInv d0 a = (let d = d0 / Fin 2 in Math_cos a / d)"

text \<open>The limit on the radius: the returned \<open>radiusInv\<close> and \<open>badRadius\<close>.\<close>

definition limitRadius :: "jsnum \<Rightarrow> jsnum \<Rightarrow> jsnum \<times> bool" where
  "limitRadius a r =
     (if normalizeAngle a > Math_PI \<or> Math_abs r > Fin 1 / MIN_TURN_RADIUS
      then ((Math_sign r * Fin 1) / MIN_TURN_RADIUS, True)
      else (r, False))"

declare closest.simps [simp del] ahead.simps [simp del]

text \<open>Where the loops stop: what the termination of \<open>updatePP\<close> rests on.\<close>

lemma closest_index: "closest segs rX rY c = (cur, r) \<Longrightarrow> c \<le> cur"
proof (induction segs rX rY c rule: closest.induct)
  case (1 segs rX rY c)
  then show ?case
    by (subst (asm) (2) closest.simps) (fastforce simp: Let_def split: if_splits)
qed

lemma closest_Some_less: "closest segs rX rY c = (cur, Some v) \<Longrightarrow> cur < length segs"
proof (induction segs rX rY c rule: closest.induct)
  case (1 segs rX rY c)
  then show ?case
    by (subst (asm) (2) closest.simps) (fastforce simp: Let_def split: if_splits)
qed

lemma closest_None_ge: "closest segs rX rY c = (cur, None) \<Longrightarrow> length segs \<le> cur"
proof (induction segs rX rY c rule: closest.induct)
  case (1 segs rX rY c)
  then show ?case
    by (subst (asm) (2) closest.simps) (fastforce simp: Let_def split: if_splits)
qed

lemma closest_None_eq:
  "closest segs rX rY c = (cur, None) \<Longrightarrow> c \<le> length segs \<Longrightarrow> cur = length segs"
proof (induction segs rX rY c rule: closest.induct)
  case (1 segs rX rY c)
  then show ?case
    by (subst (asm) (2) closest.simps) (fastforce simp: Let_def split: if_splits)
qed

lemma ahead_index: "ahead segs i d = (j, e) \<Longrightarrow> i \<le> j"
proof (induction segs i d rule: ahead.induct)
  case (1 segs i d)
  then show ?case
    by (subst (asm) (2) ahead.simps) (fastforce simp: Let_def split: if_splits)
qed

lemma ahead_bound: "ahead segs i d = (j, e) \<Longrightarrow> i \<le> length segs \<Longrightarrow> j \<le> length segs"
proof (induction segs i d rule: ahead.induct)
  case (1 segs i d)
  then show ?case
    by (subst (asm) (2) ahead.simps) (fastforce simp: Let_def split: if_splits)
qed

lemma pursuitPoint_index:
  assumes "cur < length segs" and "pursuitPoint segs cur d = (i, p)"
  shows "cur \<le> i \<and> i < length segs"
proof -
  obtain j e where a: "ahead segs cur (- d * length_seg (segs ! cur)) = (j, e)"
    by (cases "ahead segs cur (- d * length_seg (segs ! cur))")
  from a have "cur \<le> j" by (rule ahead_index)
  moreover from a assms(1) have "j \<le> length segs" by (simp add: ahead_bound)
  moreover from assms(2) a have "i = (if j = length segs then j - 1 else j)"
    by (auto simp: pursuitPoint_def Let_def split: if_splits)
  ultimately show ?thesis using assms(1) by auto
qed

lemma updatePP_decreases:
  assumes "closest segs rX rY c0 = (cur, Some (d, c))"
    and "pursuitPoint segs cur d = (i, q)"
    and "cur \<noteq> i"
  shows "c0 \<le> cur \<and> cur < i \<and> i < length segs"
proof -
  from assms(1) have "c0 \<le> cur" and "cur < length segs"
    by (auto dest: closest_index closest_Some_less)
  moreover from this assms(2) have "cur \<le> i \<and> i < length segs"
    by (auto dest: pursuitPoint_index)
  ultimately show ?thesis using assms(3) by linarith
qed

text \<open>
  The body of \<open>updatePP\<close> up to its \<open>return\<close>: \<open>Inl\<close> the state at
  \<open>return updatePP()\<close>, where the function starts again, \<open>Inr\<close> what it returns
  otherwise. When the first loop ends without a \<open>break\<close> and \<open>curSeg\<close> is not
  \<open>segments.length\<close> (it was beyond it at the call), \<open>segments[curSeg]\<close> is \<open>undefined\<close>
  and reading its \<open>length\<close> throws.
\<close>

definition updatePP_body :: "state \<Rightarrow> state + (error + result) \<times> state" where
  "updatePP_body s =
     (case closest (segments s) (robotX s) (robotY s) (curSeg s) of
        (cur, None) \<Rightarrow>
          if cur = length (segments s) then Inr (Inr Done, stopPP (s\<lparr>curSeg := cur\<rparr>))
          else Inr (Inl TypeError, s\<lparr>curSeg := cur\<rparr>)
      | (cur, Some found) \<Rightarrow>
          (let (d, px0, py0) = found;
               (i, px, py) = pursuitPoint (segments s) cur d;
               pdx = px - robotX s;
               pdy = py - robotY s;
               d = Math_hypot pdx pdy
           in if d < SKIP_DIST \<and> cur \<noteq> i then Inl (s\<lparr>curSeg := i\<rparr>)
              else
                (let a = arcAngle pdy pdx (robotDir s);
                     (radiusInv, badRadius) = limitRadius a (arcRadiusInv d a)
                 in Inr (Inr (Tracking \<lparr>radiusInv = radiusInv, badRadius = badRadius,
                                          px0 = px0, py0 = py0, px = px, py = py\<rparr>),
                         s\<lparr>curSeg := cur\<rparr>))))"

lemma updatePP_body_retry:
  assumes "updatePP_body s = Inl s'"
  shows "\<exists>cur d c i tx ty.
           closest (segments s) (robotX s) (robotY s) (curSeg s) = (cur, Some (d, c)) \<and>
           pursuitPoint (segments s) cur d = (i, tx, ty) \<and>
           Math_hypot (tx - robotX s) (ty - robotY s) < SKIP_DIST \<and>
           curSeg s \<le> cur \<and> cur < i \<and> i < length (segments s) \<and>
           s' = s\<lparr>curSeg := i\<rparr>"
proof -
  obtain cur v where c: "closest (segments s) (robotX s) (robotY s) (curSeg s) = (cur, v)"
    by (cases "closest (segments s) (robotX s) (robotY s) (curSeg s)")
  with assms obtain d c where v: "v = Some (d, c)"
    by (cases v) (auto simp: updatePP_body_def split: if_splits)
  obtain i tx ty where p: "pursuitPoint (segments s) cur d = (i, tx, ty)"
    by (cases "pursuitPoint (segments s) cur d")
  from assms c v p
  have *: "Math_hypot (tx - robotX s) (ty - robotY s) < SKIP_DIST \<and> cur \<noteq> i \<and> s' = s\<lparr>curSeg := i\<rparr>"
    by (cases c) (auto simp: updatePP_body_def Let_def split: if_splits prod.splits)
  with updatePP_decreases [OF c [unfolded v] p] c v p show ?thesis
    by blast
qed

function updatePP :: "state \<Rightarrow> (error + result) \<times> state" where
  "updatePP s = (case updatePP_body s of Inl s' \<Rightarrow> updatePP s' | Inr r \<Rightarrow> r)"
  by pat_completeness auto
termination
proof (relation "measure (\<lambda>s. length (segments s) - curSeg s)")
  show "wf (measure (\<lambda>s. length (segments s) - curSeg s))"
    by simp
next
  fix s s' :: state
  assume "updatePP_body s = Inl s'"
  from updatePP_body_retry [OF this]
  show "(s', s) \<in> measure (\<lambda>s. length (segments s) - curSeg s)"
    by auto
qed

text \<open>How many times one call of \<open>updatePP\<close> calls itself.\<close>

function updatePP_depth :: "state \<Rightarrow> nat" where
  "updatePP_depth s = (case updatePP_body s of Inl s' \<Rightarrow> Suc (updatePP_depth s') | Inr r \<Rightarrow> 0)"
  by pat_completeness auto
termination
proof (relation "measure (\<lambda>s. length (segments s) - curSeg s)")
  show "wf (measure (\<lambda>s. length (segments s) - curSeg s))"
    by simp
next
  fix s s' :: state
  assume "updatePP_body s = Inl s'"
  from updatePP_body_retry [OF this]
  show "(s', s) \<in> measure (\<lambda>s. length (segments s) - curSeg s)"
    by auto
qed

declare updatePP.simps [simp del] updatePP_depth.simps [simp del]

text \<open>
  One call of \<open>ppFrame\<close>, \<open>dt\<close> being the time since the last one in seconds. The
  drawing and the request for the next frame are left out.
\<close>

definition ppFrame :: "jsnum \<Rightarrow> state \<Rightarrow> (error + unit) \<times> state" where
  "ppFrame dt s =
     (case updatePP s of
        (Inl e, s') \<Rightarrow> (Inl e, s')
      | (Inr Done, s') \<Rightarrow> (Inr (), s')
      | (Inr (Tracking r), s') \<Rightarrow>
          (let driveDist = ROBOT_SPEED * dt;
               turnAmount = driveDist * radiusInv r;
               s' = s'\<lparr>robotDir := robotDir s' + turnAmount\<rparr>;
               s' = s'\<lparr>robotX := robotX s' + driveDist * Math_cos (robotDir s')\<rparr>;
               s' = s'\<lparr>robotY := robotY s' + driveDist * Math_sin (robotDir s')\<rparr>
           in (Inr (), s')))"

text \<open>
  \<open>startPP\<close>, \<open>dt\<close> being the time the first frame measures. \<open>waypoints[0]\<close> is
  \<open>undefined\<close> when there is no waypoint and \<open>segments[0]\<close> is when there are fewer
  than two: reading \<open>x\<close> or \<open>angle\<close> of it throws, after the assignments before it.
\<close>

definition startPP :: "jsnum \<Rightarrow> state \<Rightarrow> (error + unit) \<times> state" where
  "startPP dt s =
     (let s = s\<lparr>segments := getSegments (waypoints s)\<rparr>
      in case waypoints s of
           [] \<Rightarrow> (Inl TypeError, s)
         | w # _ \<Rightarrow>
             (let s = s\<lparr>robotX := x w\<rparr>;
                  s = s\<lparr>robotY := y w\<rparr>
              in case segments s of
                   [] \<Rightarrow> (Inl TypeError, s)
                 | seg # _ \<Rightarrow>
                     (let s = s\<lparr>robotDir := angle seg\<rparr>;
                          s = s\<lparr>curSeg := 0\<rparr>;
                          s = s\<lparr>ppRunning := True\<rparr>
                      in ppFrame dt s)))"

section \<open>The segments of a path\<close>

lemma getSegments_length: "length (getSegments ws) = length ws - 1"
  by (induction ws rule: getSegments.induct) auto

lemma getSegments_nth:
  "i < length ws - 1 \<Longrightarrow> getSegments ws ! i = segmentOf (ws ! i) (ws ! Suc i)"
proof (induction ws arbitrary: i rule: getSegments.induct)
  case (1 w1 w2 ws)
  then show ?case by (cases i) auto
qed auto

text \<open>
  C4. \<open>getSegments\<close> returns one segment for each pair of consecutive waypoints, in
  order: \<open>N\<close> waypoints give \<open>N - 1\<close> segments, none or one waypoint gives the empty
  list. The segment of the waypoints \<open>i\<close> and \<open>i + 1\<close> has them as its end points,
  \<open>length = hypot(x2 - x1, y2 - y1)\<close>, \<open>ndx = dx / length\<close>, \<open>ndy = dy / length\<close> and
  \<open>angle = atan2(dy, dx)\<close>.
\<close>

theorem getSegments_consecutive_pairs:
  "length (getSegments ws) = length ws - 1 \<and>
   getSegments [] = [] \<and> getSegments [w] = [] \<and>
   (\<forall>i < length ws - 1.
      let seg = getSegments ws ! i in
        x1 seg = x (ws ! i) \<and> y1 seg = y (ws ! i) \<and>
        x2 seg = x (ws ! Suc i) \<and> y2 seg = y (ws ! Suc i) \<and>
        dx seg = x2 seg - x1 seg \<and> dy seg = y2 seg - y1 seg \<and>
        length_seg seg = Math_hypot (x2 seg - x1 seg) (y2 seg - y1 seg) \<and>
        ndx seg = dx seg / length_seg seg \<and> ndy seg = dy seg / length_seg seg \<and>
        angle seg = Math_atan2 (dy seg) (dx seg))"
  by (simp add: getSegments_length getSegments_nth segmentOf_def Let_def)

theorem getSegments_consecutive_pairs_witness:
  "length (getSegments [\<lparr>x = Fin 0, y = Fin 0\<rparr>, \<lparr>x = Fin 0, y = Fin 2\<rparr>]) = 1 \<and>
   length_seg (getSegments [\<lparr>x = Fin 0, y = Fin 0\<rparr>, \<lparr>x = Fin 0, y = Fin 2\<rparr>] ! 0) = Fin 2 \<and>
   ndx (getSegments [\<lparr>x = Fin 0, y = Fin 0\<rparr>, \<lparr>x = Fin 0, y = Fin 2\<rparr>] ! 0) = Fin 0 \<and>
   ndy (getSegments [\<lparr>x = Fin 0, y = Fin 0\<rparr>, \<lparr>x = Fin 0, y = Fin 2\<rparr>] ! 0) = Fin 1 \<and>
   angle (getSegments [\<lparr>x = Fin 0, y = Fin 0\<rparr>, \<lparr>x = Fin 0, y = Fin 2\<rparr>] ! 0) = Fin (pi / 2)"
  using getSegments_consecutive_pairs [of "[\<lparr>x = Fin 0, y = Fin 0\<rparr>, \<lparr>x = Fin 0, y = Fin 2\<rparr>]"]
  by (simp add: Let_def minus_jsnum_def atan2_def)

text \<open>
  C5, as the code behaves. Two equal consecutive waypoints are neither refused nor passed
  over: \<open>getSegments\<close> returns their segment like any other, with \<open>length\<close> zero, and
  its \<open>ndx\<close> and \<open>ndy\<close> are \<open>0/0\<close>, that is \<open>NaN\<close>.
\<close>

theorem getSegments_coincident:
  assumes "i < length ws - 1"
    and "x (ws ! i) = Fin a" and "y (ws ! i) = Fin b"
    and "x (ws ! Suc i) = Fin a" and "y (ws ! Suc i) = Fin b"
  shows "length (getSegments ws) = length ws - 1 \<and>
         length_seg (getSegments ws ! i) = Fin 0 \<and>
         ndx (getSegments ws ! i) = NaN \<and> ndy (getSegments ws ! i) = NaN"
  using assms
  by (simp add: getSegments_length getSegments_nth segmentOf_def Let_def minus_jsnum_def)

theorem getSegments_coincident_witness:
  "length (getSegments [\<lparr>x = Fin 1, y = Fin 2\<rparr>, \<lparr>x = Fin 5, y = Fin 5\<rparr>, \<lparr>x = Fin 5, y = Fin 5\<rparr>]) = 2 \<and>
   length_seg (getSegments [\<lparr>x = Fin 1, y = Fin 2\<rparr>, \<lparr>x = Fin 5, y = Fin 5\<rparr>, \<lparr>x = Fin 5, y = Fin 5\<rparr>] ! 1) = Fin 0 \<and>
   ndx (getSegments [\<lparr>x = Fin 1, y = Fin 2\<rparr>, \<lparr>x = Fin 5, y = Fin 5\<rparr>, \<lparr>x = Fin 5, y = Fin 5\<rparr>] ! 1) = NaN \<and>
   ndy (getSegments [\<lparr>x = Fin 1, y = Fin 2\<rparr>, \<lparr>x = Fin 5, y = Fin 5\<rparr>, \<lparr>x = Fin 5, y = Fin 5\<rparr>] ! 1) = NaN"
  using getSegments_coincident
    [of 1 "[\<lparr>x = Fin 1, y = Fin 2\<rparr>, \<lparr>x = Fin 5, y = Fin 5\<rparr>, \<lparr>x = Fin 5, y = Fin 5\<rparr>]" 5 5]
  by simp

text \<open>
  The path of two equal waypoints: one segment is returned, its direction is \<open>NaN\<close>.
\<close>

theorem getSegments_coincident_counterexample:
  "getSegments [\<lparr>x = Fin 0, y = Fin 0\<rparr>, \<lparr>x = Fin 0, y = Fin 0\<rparr>] =
     [\<lparr>x1 = Fin 0, y1 = Fin 0, x2 = Fin 0, y2 = Fin 0, dx = Fin 0, dy = Fin 0,
       ndx = NaN, ndy = NaN, length_seg = Fin 0, angle = Fin 0\<rparr>]"
  by (simp add: segmentOf_def Let_def minus_jsnum_def atan2_def)

section \<open>Starting a run\<close>

text \<open>
  C6, as the code behaves. Started with fewer than two waypoints, \<open>startPP\<close> throws a
  \<open>TypeError\<close> from the read out of range (\<open>waypoints[0]\<close> without a waypoint,
  \<open>segments[0]\<close> with one) before \<open>curSeg\<close>, \<open>robotDir\<close> and \<open>ppRunning\<close> are
  assigned. By then \<open>segments\<close> is the empty list, and with one waypoint \<open>robotX\<close>
  and \<open>robotY\<close> are already that waypoint.
\<close>

theorem startPP_short_path:
  assumes "length (waypoints s) < 2"
  shows "\<exists>s'. startPP dt s = (Inl TypeError, s') \<and>
           curSeg s' = curSeg s \<and> ppRunning s' = ppRunning s \<and> robotDir s' = robotDir s \<and>
           segments s' = [] \<and>
           (waypoints s = [] \<longrightarrow> robotX s' = robotX s \<and> robotY s' = robotY s) \<and>
           (\<forall>w. waypoints s = [w] \<longrightarrow> robotX s' = x w \<and> robotY s' = y w)"
proof (cases "waypoints s")
  case Nil
  then show ?thesis by (simp add: startPP_def)
next
  case (Cons w ws)
  with assms have "ws = []" by simp
  with Cons show ?thesis by (simp add: startPP_def)
qed

text \<open>A state before any run, for the examples.\<close>

definition idle :: state where
  "idle = \<lparr>waypoints = [], segments = [], curSeg = 0, robotX = Fin 0, robotY = Fin 0,
           robotDir = Fin 0, ppRunning = False\<rparr>"

theorem startPP_short_path_witness:
  "\<exists>s'. startPP (Fin 0) (idle\<lparr>waypoints := [\<lparr>x = Fin 3, y = Fin 4\<rparr>]\<rparr>) = (Inl TypeError, s') \<and>
     curSeg s' = 0 \<and> ppRunning s' = False \<and> robotX s' = Fin 3 \<and> robotY s' = Fin 4"
  using startPP_short_path [of "idle\<lparr>waypoints := [\<lparr>x = Fin 3, y = Fin 4\<rparr>]\<rparr>" "Fin 0"]
  by (auto simp: idle_def)

text \<open>With the one waypoint \<open>(3, 4)\<close> the robot is moved to it before the error.\<close>

theorem startPP_one_waypoint_counterexample:
  "startPP (Fin 0) (idle\<lparr>waypoints := [\<lparr>x = Fin 3, y = Fin 4\<rparr>]\<rparr>) =
     (Inl TypeError, idle\<lparr>waypoints := [\<lparr>x = Fin 3, y = Fin 4\<rparr>], robotX := Fin 3, robotY := Fin 4\<rparr>)"
  by (simp add: startPP_def idle_def)

section \<open>The state across steps\<close>

text \<open>
  The value \<open>d\<close> that the first loop of \<open>updatePP\<close> compares with \<open>1.0\<close>: how far
  along the segment the robot is, as a fraction of the segment's length.
\<close>

definition projection :: "segment \<Rightarrow> jsnum \<Rightarrow> jsnum \<Rightarrow> jsnum" where
  "projection seg rX rY = ((rX - x1 seg) * ndx seg + (rY - y1 seg) * ndy seg) / length_seg seg"

lemma closest_None_all:
  "closest segs rX rY c = (cur, None) \<Longrightarrow> c \<le> k \<Longrightarrow> k < length segs \<Longrightarrow>
     \<not> projection (segs ! k) rX rY < Fin 1"
proof (induction segs rX rY c rule: closest.induct)
  case (1 segs rX rY c)
  show ?case
  proof (cases "k = c")
    case True
    with "1.prems" show ?thesis
      by (subst (asm) closest.simps) (auto simp: Let_def projection_def split: if_splits)
  next
    case False
    with "1.prems" have "Suc c \<le> k" and "c < length segs" by auto
    moreover from "1.prems" this have "closest segs rX rY (Suc c) = (cur, None)"
      by (subst (asm) closest.simps) (auto simp: Let_def split: if_splits)
    moreover from "1.prems" this have "\<not> projection (segs ! c) rX rY < Fin 1"
      by (subst (asm) closest.simps) (auto simp: Let_def projection_def split: if_splits)
    ultimately show ?thesis using "1.IH" "1.prems" 
      by (auto simp: Let_def projection_def)
  qed
qed

lemma updatePP_body_retry_index:
  assumes "updatePP_body s = Inl s'"
  obtains i where "curSeg s < i" and "i < length (segments s)" and "s' = s\<lparr>curSeg := i\<rparr>"
proof -
  from updatePP_body_retry [OF assms] obtain cur i
    where "curSeg s \<le> cur" "cur < i" "i < length (segments s)" "s' = s\<lparr>curSeg := i\<rparr>"
    by blast
  then show thesis using that [of i] by simp
qed

lemma updatePP_body_return:
  assumes "updatePP_body s = Inr (r, s')"
  shows "\<exists>cur. curSeg s \<le> cur \<and> s' = s\<lparr>curSeg := cur, ppRunning := (ppRunning s \<and> r \<noteq> Inr Done)\<rparr>"
proof -
  obtain cur v where c: "closest (segments s) (robotX s) (robotY s) (curSeg s) = (cur, v)"
    by (cases "closest (segments s) (robotX s) (robotY s) (curSeg s)")
  then have "curSeg s \<le> cur" by (rule closest_index)
  moreover from assms c have "s' = s\<lparr>curSeg := cur, ppRunning := (ppRunning s \<and> r \<noteq> Inr Done)\<rparr>"
    by (cases v) (auto simp: updatePP_body_def stopPP_def Let_def split: if_splits prod.splits)
  ultimately show ?thesis by blast
qed

lemma updatePP_body_Done:
  assumes "updatePP_body s = Inr (Inr Done, s')"
  shows "closest (segments s) (robotX s) (robotY s) (curSeg s) = (length (segments s), None) \<and>
         s' = s\<lparr>curSeg := length (segments s), ppRunning := False\<rparr>"
proof -
  obtain cur v where c: "closest (segments s) (robotX s) (robotY s) (curSeg s) = (cur, v)"
    by (cases "closest (segments s) (robotX s) (robotY s) (curSeg s)")
  with assms show ?thesis
    by (cases v) (auto simp: updatePP_body_def stopPP_def Let_def split: if_splits prod.splits)
qed

lemma updatePP_frame:
  "updatePP s = (r, s') \<Longrightarrow>
     curSeg s \<le> curSeg s' \<and> segments s' = segments s \<and> waypoints s' = waypoints s \<and>
     robotX s' = robotX s \<and> robotY s' = robotY s \<and> robotDir s' = robotDir s"
proof (induction s rule: updatePP.induct)
  case (1 s)
  show ?case
  proof (cases "updatePP_body s")
    case (Inl s1)
    with "1.prems" have "updatePP s1 = (r, s')" by (subst (asm) updatePP.simps) simp
    with "1.IH" [OF Inl] updatePP_body_retry_index [OF Inl] show ?thesis
      by (metis less_imp_le_nat order_trans state.select_convs(1,2,3,4,5,6) state.surjective state.update_convs(3))
  next
    case (Inr q)
    with "1.prems" have "updatePP_body s = Inr (r, s')" by (subst (asm) updatePP.simps) simp
    from updatePP_body_return [OF this] show ?thesis by auto
  qed
qed

lemma updatePP_Done:
  "updatePP s = (Inr Done, s') \<Longrightarrow>
     s' = s\<lparr>curSeg := length (segments s), ppRunning := False\<rparr> \<and>
     (\<exists>c. curSeg s \<le> c \<and> (curSeg s < length (segments s) \<longrightarrow> c < length (segments s)) \<and>
          (\<forall>k. c \<le> k \<and> k < length (segments s) \<longrightarrow>
               \<not> projection (segments s ! k) (robotX s) (robotY s) < Fin 1))"
proof (induction s rule: updatePP.induct)
  case (1 s)
  show ?case
  proof (cases "updatePP_body s")
    case (Inl s1)
    with "1.prems" have u: "updatePP s1 = (Inr Done, s')" by (subst (asm) updatePP.simps) simp
    from Inl obtain i
      where i: "curSeg s < i" "i < length (segments s)" "s1 = s\<lparr>curSeg := i\<rparr>"
      by (rule updatePP_body_retry_index)
    from "1.IH" [OF Inl u] i(2,3) obtain c
      where c: "s' = s\<lparr>curSeg := length (segments s), ppRunning := False\<rparr>"
        "i \<le> c" "c < length (segments s)"
        "\<forall>k. c \<le> k \<and> k < length (segments s) \<longrightarrow>
               \<not> projection (segments s ! k) (robotX s) (robotY s) < Fin 1"
      by auto
    from i(1) c(2) have "curSeg s \<le> c" by simp
    with c show ?thesis by blast
  next
    case (Inr q)
    with "1.prems" have "updatePP_body s = Inr (Inr Done, s')" by (subst (asm) updatePP.simps) simp
    from updatePP_body_Done [OF this]
    have d: "closest (segments s) (robotX s) (robotY s) (curSeg s) = (length (segments s), None)"
      and s': "s' = s\<lparr>curSeg := length (segments s), ppRunning := False\<rparr>"
      by auto
    from d have "\<forall>k. curSeg s \<le> k \<and> k < length (segments s) \<longrightarrow>
               \<not> projection (segments s ! k) (robotX s) (robotY s) < Fin 1"
      by (auto dest: closest_None_all)
    with s' show ?thesis by blast
  qed
qed


lemma closest_at_end: "closest segs rX rY (length segs) = (length segs, None)"
  by (subst closest.simps) simp

lemma updatePP_at_end:
  assumes "curSeg s = length (segments s)"
  shows "updatePP s = (Inr Done, s\<lparr>ppRunning := False\<rparr>)"
proof -
  from assms have "updatePP_body s = Inr (Inr Done, s\<lparr>ppRunning := False\<rparr>)"
    by (simp add: updatePP_body_def closest_at_end stopPP_def)
  then show ?thesis by (subst updatePP.simps) simp
qed

text \<open>
  C7. Once \<open>updatePP\<close> has returned \<open>done\<close>, it returns \<open>done\<close> again at every
  further call and changes nothing: \<open>curSeg\<close> stays at the number of segments and the
  pose of the robot is what it was, also across \<open>ppFrame\<close>. The first \<open>done\<close> is
  reached with the test \<open>d < 1.0\<close> failing on every segment from the one the last
  search started at, the last segment among them when \<open>curSeg\<close> was in range.
\<close>

theorem updatePP_done_idempotent:
  assumes "updatePP s = (Inr Done, s')"
  shows "updatePP s' = (Inr Done, s') \<and> ppFrame dt s' = (Inr (), s') \<and>
         curSeg s' = length (segments s') \<and>
         robotX s' = robotX s \<and> robotY s' = robotY s \<and> robotDir s' = robotDir s \<and>
         (\<exists>c. curSeg s \<le> c \<and> (curSeg s < length (segments s) \<longrightarrow> c < length (segments s)) \<and>
              (\<forall>k. c \<le> k \<and> k < length (segments s) \<longrightarrow>
                   \<not> projection (segments s ! k) (robotX s) (robotY s) < Fin 1))"
proof -
  from updatePP_Done [OF assms]
  have s': "s' = s\<lparr>curSeg := length (segments s), ppRunning := False\<rparr>"
    and f: "\<exists>c. curSeg s \<le> c \<and> (curSeg s < length (segments s) \<longrightarrow> c < length (segments s)) \<and>
              (\<forall>k. c \<le> k \<and> k < length (segments s) \<longrightarrow>
                   \<not> projection (segments s ! k) (robotX s) (robotY s) < Fin 1)"
    by blast+
  from s' have e: "curSeg s' = length (segments s')" by simp
  from updatePP_at_end [OF e] s' have u: "updatePP s' = (Inr Done, s')" by simp
  then have "ppFrame dt s' = (Inr (), s')" by (simp add: ppFrame_def)
  with u e s' f show ?thesis by simp
qed

text \<open>The robot at the end of a path of one segment, for the examples.\<close>

definition upward :: state where
  "upward = idle\<lparr>waypoints := [\<lparr>x = Fin 0, y = Fin 0\<rparr>, \<lparr>x = Fin 0, y = Fin 2\<rparr>],
                   segments := getSegments [\<lparr>x = Fin 0, y = Fin 0\<rparr>, \<lparr>x = Fin 0, y = Fin 2\<rparr>],
                   robotY := Fin 2, ppRunning := True\<rparr>"

lemma updatePP_upward: "updatePP upward = (Inr Done, upward\<lparr>curSeg := 1, ppRunning := False\<rparr>)"
  by (subst updatePP.simps)
    (simp add: updatePP_body_def upward_def idle_def closest.simps segmentOf_def Let_def
      minus_jsnum_def stopPP_def)

theorem updatePP_done_idempotent_witness:
  "updatePP upward = (Inr Done, upward\<lparr>curSeg := 1, ppRunning := False\<rparr>) \<and>
   updatePP (upward\<lparr>curSeg := 1, ppRunning := False\<rparr>) = (Inr Done, upward\<lparr>curSeg := 1, ppRunning := False\<rparr>) \<and>
   ppFrame (Fin 1) (upward\<lparr>curSeg := 1, ppRunning := False\<rparr>) = (Inr (), upward\<lparr>curSeg := 1, ppRunning := False\<rparr>)"
  using updatePP_done_idempotent [OF updatePP_upward, of "Fin 1"] updatePP_upward
  by blast

lemma ppFrame_curSeg: "curSeg (snd (ppFrame dt s)) = curSeg (snd (updatePP s))"
  by (simp add: ppFrame_def Let_def split: prod.splits sum.splits result.splits)

text \<open>
  C8. No step decreases \<open>curSeg\<close>: not \<open>updatePP\<close>, not \<open>ppFrame\<close>, not \<open>stopPP\<close>.
  It is set to \<open>0\<close> by \<open>startPP\<close> alone, before the first frame of the run.
\<close>

theorem curSeg_never_decreases:
  "curSeg s \<le> curSeg (snd (updatePP s)) \<and>
   curSeg s \<le> curSeg (snd (ppFrame dt s)) \<and>
   curSeg (stopPP s) = curSeg s \<and>
   startPP dt (s\<lparr>waypoints := w1 # w2 # ws\<rparr>) =
     ppFrame dt (s\<lparr>waypoints := w1 # w2 # ws, segments := getSegments (w1 # w2 # ws),
                    robotX := x w1, robotY := y w1, robotDir := angle (segmentOf w1 w2),
                    curSeg := 0, ppRunning := True\<rparr>)"
proof -
  have "curSeg s \<le> curSeg (snd (updatePP s))"
    using updatePP_frame [of s "fst (updatePP s)" "snd (updatePP s)"] by simp
  then show ?thesis
    by (simp add: ppFrame_curSeg stopPP_def startPP_def)
qed

lemma updatePP_depth_bound: "updatePP_depth s \<le> length (segments s) - curSeg s"
proof (induction s rule: updatePP_depth.induct)
  case (1 s)
  show ?case
  proof (cases "updatePP_body s")
    case (Inl s1)
    from Inl obtain i
      where i: "curSeg s < i" "i < length (segments s)" "s1 = s\<lparr>curSeg := i\<rparr>"
      by (rule updatePP_body_retry_index)
    from "1.IH" [OF Inl] i have "updatePP_depth s1 \<le> length (segments s) - i" by simp
    moreover from Inl have "updatePP_depth s = Suc (updatePP_depth s1)"
      by (subst updatePP_depth.simps) simp
    ultimately show ?thesis using i by linarith
  next
    case (Inr r)
    then show ?thesis by (subst updatePP_depth.simps) simp
  qed
qed

text \<open>
  C9. \<open>updatePP\<close> calls itself only when the pursuit point is closer to the robot than
  \<open>SKIP_DIST\<close> and lies on a segment \<open>i\<close> after \<open>curSeg\<close>; the call is made with
  \<open>curSeg = i\<close>, larger than before and below the number of segments. So \<open>updatePP\<close>
  calls itself at most as many times as there are segments, for every state; that it
  returns for every state is its termination proof above.
\<close>

theorem updatePP_skip_terminates:
  "(\<forall>s'. updatePP_body s = Inl s' \<longrightarrow>
      (\<exists>cur d c i tx ty.
         closest (segments s) (robotX s) (robotY s) (curSeg s) = (cur, Some (d, c)) \<and>
         pursuitPoint (segments s) cur d = (i, tx, ty) \<and>
         Math_hypot (tx - robotX s) (ty - robotY s) < SKIP_DIST \<and>
         curSeg s \<le> cur \<and> cur < i \<and> i < length (segments s) \<and>
         s' = s\<lparr>curSeg := i\<rparr> \<and> curSeg s < curSeg s' \<and> updatePP s = updatePP s')) \<and>
   updatePP_depth s \<le> length (segments s) - curSeg s \<and>
   updatePP_depth s \<le> length (segments s)"
proof -
  have "updatePP s = updatePP s'" if "updatePP_body s = Inl s'" for s'
    using that by (subst updatePP.simps) simp
  moreover have "updatePP_depth s \<le> length (segments s)"
    using updatePP_depth_bound [of s] by simp
  ultimately show ?thesis
    using updatePP_depth_bound [of s] by (auto dest!: updatePP_body_retry)
qed


text \<open>A path that turns back on itself after 40 inches, the robot at its start.\<close>

definition corner :: state where
  "corner = idle\<lparr>waypoints := [\<lparr>x = Fin 0, y = Fin 0\<rparr>, \<lparr>x = Fin 0, y = Fin 40\<rparr>, \<lparr>x = Fin 0, y = Fin (- 100)\<rparr>],
                   segments := getSegments [\<lparr>x = Fin 0, y = Fin 0\<rparr>, \<lparr>x = Fin 0, y = Fin 40\<rparr>, \<lparr>x = Fin 0, y = Fin (- 100)\<rparr>],
                   ppRunning := True\<rparr>"

lemma updatePP_body_corner: "updatePP_body corner = Inl (corner\<lparr>curSeg := 1\<rparr>)"
  by (simp add: updatePP_body_def corner_def idle_def closest.simps ahead.simps pursuitPoint_def
      segmentOf_def Let_def minus_jsnum_def PURSUIT_DIST_def SKIP_DIST_def)

theorem updatePP_skip_terminates_witness:
  "updatePP_body corner = Inl (corner\<lparr>curSeg := 1\<rparr>) \<and>
   updatePP corner = updatePP (corner\<lparr>curSeg := 1\<rparr>) \<and>
   updatePP_depth corner \<le> length (segments corner)"
  using updatePP_skip_terminates [of corner] updatePP_body_corner
  by blast


section \<open>The curvature\<close>

lemma closest_restart:
  "closest segs rX rY c = (cur, Some v) \<Longrightarrow> closest segs rX rY cur = (cur, Some v)"
proof (induction segs rX rY c rule: closest.induct)
  case (1 segs rX rY c)
  show ?case
  proof (cases "cur = c")
    case True
    with "1.prems" show ?thesis by simp
  next
    case False
    with "1.prems" have "c < length segs \<and> closest segs rX rY (Suc c) = (cur, Some v) \<and>
        \<not> ((rX - x1 (segs ! c)) * ndx (segs ! c) + (rY - y1 (segs ! c)) * ndy (segs ! c)) / length_seg (segs ! c) < Fin 1"
      by (subst (asm) closest.simps) (auto simp: Let_def split: if_splits)
    with "1.IH" show ?thesis by (auto simp: Let_def)
  qed
qed

lemma updatePP_body_Tracking:
  assumes "updatePP_body s = Inr (Inr (Tracking r), s')"
  shows "\<exists>d i.
           closest (segments s) (robotX s) (robotY s) (curSeg s) = (curSeg s', Some (d, px0 r, py0 r)) \<and>
           pursuitPoint (segments s) (curSeg s') d = (i, px r, py r) \<and>
           s' = s\<lparr>curSeg := curSeg s'\<rparr> \<and>
           (radiusInv r, badRadius r) =
             limitRadius (arcAngle (py r - robotY s) (px r - robotX s) (robotDir s))
               (arcRadiusInv (Math_hypot (px r - robotX s) (py r - robotY s))
                  (arcAngle (py r - robotY s) (px r - robotX s) (robotDir s)))"
proof -
  obtain cur v where c: "closest (segments s) (robotX s) (robotY s) (curSeg s) = (cur, v)"
    by (cases "closest (segments s) (robotX s) (robotY s) (curSeg s)")
  with assms obtain d qx qy where v: "v = Some (d, qx, qy)"
    by (cases v) (auto simp: updatePP_body_def split: if_splits)
  obtain i tx ty where p: "pursuitPoint (segments s) cur d = (i, tx, ty)"
    by (cases "pursuitPoint (segments s) cur d")
  obtain ri br where l: "limitRadius (arcAngle (ty - robotY s) (tx - robotX s) (robotDir s))
               (arcRadiusInv (Math_hypot (tx - robotX s) (ty - robotY s))
                  (arcAngle (ty - robotY s) (tx - robotX s) (robotDir s))) = (ri, br)"
    by (cases "limitRadius (arcAngle (ty - robotY s) (tx - robotX s) (robotDir s))
               (arcRadiusInv (Math_hypot (tx - robotX s) (ty - robotY s))
                  (arcAngle (ty - robotY s) (tx - robotX s) (robotDir s)))")
  from assms c v p l
  have "r = \<lparr>radiusInv = ri, badRadius = br, px0 = qx, py0 = qy, px = tx, py = ty\<rparr> \<and>
        s' = s\<lparr>curSeg := cur\<rparr>"
    by (auto simp: updatePP_body_def Let_def split: if_splits)
  with c v p l show ?thesis by auto
qed

lemma updatePP_Tracking:
  "updatePP s = (Inr (Tracking r), s') \<Longrightarrow>
     curSeg s \<le> curSeg s' \<and> s' = s\<lparr>curSeg := curSeg s'\<rparr> \<and>
     (\<exists>d i.
        closest (segments s) (robotX s) (robotY s) (curSeg s') = (curSeg s', Some (d, px0 r, py0 r)) \<and>
        pursuitPoint (segments s) (curSeg s') d = (i, px r, py r)) \<and>
     (radiusInv r, badRadius r) =
       limitRadius (arcAngle (py r - robotY s) (px r - robotX s) (robotDir s))
         (arcRadiusInv (Math_hypot (px r - robotX s) (py r - robotY s))
            (arcAngle (py r - robotY s) (px r - robotX s) (robotDir s)))"
proof (induction s rule: updatePP.induct)
  case (1 s)
  show ?case
  proof (cases "updatePP_body s")
    case (Inl s1)
    with "1.prems" have u: "updatePP s1 = (Inr (Tracking r), s')"
      by (subst (asm) updatePP.simps) simp
    from Inl obtain i
      where i: "curSeg s < i" "i < length (segments s)" "s1 = s\<lparr>curSeg := i\<rparr>"
      by (rule updatePP_body_retry_index)
    from "1.IH" [OF Inl u] i show ?thesis by auto
  next
    case (Inr q)
    with "1.prems" have b: "updatePP_body s = Inr (Inr (Tracking r), s')"
      by (subst (asm) updatePP.simps) simp
    from updatePP_body_Tracking [OF b] obtain d i
      where c: "closest (segments s) (robotX s) (robotY s) (curSeg s) = (curSeg s', Some (d, px0 r, py0 r))"
        and rest: "pursuitPoint (segments s) (curSeg s') d = (i, px r, py r)"
          "s' = s\<lparr>curSeg := curSeg s'\<rparr>"
          "(radiusInv r, badRadius r) =
             limitRadius (arcAngle (py r - robotY s) (px r - robotX s) (robotDir s))
               (arcRadiusInv (Math_hypot (px r - robotX s) (py r - robotY s))
                  (arcAngle (py r - robotY s) (px r - robotX s) (robotDir s)))"
      by blast
    from c have "curSeg s \<le> curSeg s'" by (rule closest_index)
    with closest_restart [OF c] rest show ?thesis by blast
  qed
qed

lemma arcRadiusInv_sin:
  "arcRadiusInv L (Math_PI / Fin 2 - alpha) = (Fin 2 * Math_sin alpha) / L"
proof (cases alpha)
  case (Fin t)
  have "cos (pi / 2 - t) = sin t" using sin_cos_eq [of t] by simp
  with Fin show ?thesis
    by (cases L) (auto simp: arcRadiusInv_def Math_PI_def minus_jsnum_def Let_def zero_less_mult_iff)
qed (cases L; simp add: arcRadiusInv_def Math_PI_def minus_jsnum_def Let_def)+

text \<open>
  C1. When \<open>updatePP\<close> returns a pursuit point, the reciprocal of the arc radius it
  computes, \<open>cos(\<pi>/2 - (bearing - robotDir)) / (L/2)\<close>, is \<open>2 sin(alpha) / L\<close>, sign
  included, where \<open>L\<close> is the distance from the robot to the pursuit point, \<open>bearing\<close>
  the angle \<open>atan2\<close> gives for it and \<open>alpha = bearing - robotDir\<close>. The returned
  \<open>radiusInv\<close> and \<open>badRadius\<close> are the limit applied to that value.
\<close>

theorem updatePP_curvature:
  assumes "updatePP s = (Inr (Tracking r), s')"
  shows "let tx = px r - robotX s; ty = py r - robotY s;
             L = Math_hypot tx ty;
             bearing = Math_atan2 ty tx;
             alpha = bearing - robotDir s;
             k = (Fin 2 * Math_sin alpha) / L
         in Math_cos (Math_PI / Fin 2 - (bearing - robotDir s)) / (L / Fin 2) = k \<and>
            (radiusInv r, badRadius r) = limitRadius (Math_PI / Fin 2 - alpha) k"
  using updatePP_Tracking [OF assms] arcRadiusInv_sin
  by (simp add: Let_def arcAngle_def) (simp add: arcRadiusInv_def)


lemma trunc_bounds:
  fixes u :: real
  assumes "0 < p"
  defines "r \<equiv> u - p * of_int (trunc (u / p))"
  shows "(0 \<le> u \<longrightarrow> 0 \<le> r \<and> r < p) \<and> (u < 0 \<longrightarrow> - p < r \<and> r \<le> 0)"
proof (cases "0 \<le> u")
  case True
  with assms have q: "trunc (u / p) = \<lfloor>u / p\<rfloor>" by (simp add: trunc_def)
  from assms(1) have lo: "of_int \<lfloor>u / p\<rfloor> * p \<le> u"
    by (subst pos_le_divide_eq [symmetric]) simp_all
  from assms(1) have hi: "u < (of_int \<lfloor>u / p\<rfloor> + 1) * p"
    by (subst pos_divide_less_eq [symmetric]) simp_all
  from lo hi True q show ?thesis by (simp add: r_def algebra_simps)
next
  case False
  with assms have "u / p < 0" by (simp add: field_simps)
  then have q: "trunc (u / p) = \<lceil>u / p\<rceil>" by (simp add: trunc_def)
  from assms(1) have hi: "u \<le> of_int \<lceil>u / p\<rceil> * p"
    by (subst pos_divide_le_eq [symmetric]) simp_all
  have "of_int \<lceil>u / p\<rceil> - 1 < u / p" by linarith
  with assms(1) have lo: "(of_int \<lceil>u / p\<rceil> - 1) * p < u"
    by (subst pos_less_divide_eq [symmetric])
  from lo hi False q show ?thesis by (simp add: r_def algebra_simps)
qed

lemma normalizeAngle_Fin:
  "\<exists>v. normalizeAngle (Fin u) = Fin v \<and> 0 \<le> v \<and> v < 2 * pi \<and> sin v = sin u"
proof -
  define r where "r = u - (2 * pi) * of_int (trunc (u / (2 * pi)))"
  have rem: "js_rem (Fin u) (Fin 2 * Math_PI) = Fin r"
    by (simp add: Math_PI_def r_def)
  have b: "(0 \<le> u \<longrightarrow> 0 \<le> r \<and> r < 2 * pi) \<and> (u < 0 \<longrightarrow> - (2 * pi) < r \<and> r \<le> 0)"
    unfolding r_def by (rule trunc_bounds) simp
  have sr: "sin r = sin u"
    unfolding r_def by (simp add: sin_diff)
  show ?thesis
  proof (cases "r < 0")
    case True
    with rem have "normalizeAngle (Fin u) = Fin (r + 2 * pi)"
      by (simp add: normalizeAngle_def Math_PI_def Let_def)
    moreover from True b have "0 \<le> r + 2 * pi \<and> r + 2 * pi < 2 * pi"
      by (cases "0 \<le> u") auto
    moreover have "sin (r + 2 * pi) = sin u" using sr by simp
    ultimately show ?thesis by blast
  next
    case False
    with rem have "normalizeAngle (Fin u) = Fin r"
      by (simp add: normalizeAngle_def Math_PI_def Let_def)
    moreover from False b have "0 \<le> r \<and> r < 2 * pi"
      by (cases "0 \<le> u") auto
    ultimately show ?thesis using sr by blast
  qed
qed

lemma normalizeAngle_gt_pi: "normalizeAngle (Fin u) > Math_PI \<longleftrightarrow> sin u < 0"
proof -
  from normalizeAngle_Fin [of u] obtain v
    where v: "normalizeAngle (Fin u) = Fin v" "0 \<le> v" "v < 2 * pi" "sin v = sin u"
    by blast
  show ?thesis
  proof (cases "pi < v")
    case True
    from True v(3) have "sin v < 0" by (rule sin_lt_zero)
    with v True show ?thesis by (simp add: Math_PI_def)
  next
    case False
    with v(2) have "0 \<le> sin v" by (simp add: sin_ge_zero)
    with v False show ?thesis by (simp add: Math_PI_def)
  qed
qed

lemma behind_iff: "normalizeAngle (Math_PI / Fin 2 - Fin t) > Math_PI \<longleftrightarrow> cos t < 0"
proof -
  have "Math_PI / Fin 2 - Fin t = Fin (pi / 2 - t)"
    by (simp add: Math_PI_def minus_jsnum_def)
  moreover have "sin (pi / 2 - t) = cos t" using cos_sin_eq [of t] by simp
  ultimately show ?thesis by (simp add: normalizeAngle_gt_pi)
qed


text \<open>
  A path of one segment of 200 inches down the \<open>y\<close> axis, the robot on the axis at
  \<open>rY\<close> with the heading \<open>rDir\<close>, for the examples.
\<close>

definition southward :: "jsnum \<Rightarrow> jsnum \<Rightarrow> state" where
  "southward rY rDir =
     idle\<lparr>waypoints := [\<lparr>x = Fin 0, y = Fin 0\<rparr>, \<lparr>x = Fin 0, y = Fin (- 200)\<rparr>],
          segments := getSegments [\<lparr>x = Fin 0, y = Fin 0\<rparr>, \<lparr>x = Fin 0, y = Fin (- 200)\<rparr>],
          robotY := rY, robotDir := rDir, ppRunning := True\<rparr>"

lemmas run_simps =
  updatePP_body_def closest.simps ahead.simps pursuitPoint_def segmentOf_def Let_def
  minus_jsnum_def PURSUIT_DIST_def SKIP_DIST_def MIN_TURN_RADIUS_def Math_PI_def
  arcAngle_def arcRadiusInv_def limitRadius_def normalizeAngle_def atan2_def trunc_def
  southward_def idle_def

lemma updatePP_southward_100:
  "updatePP (southward (Fin 100) (Fin 0)) =
     (Inr (Tracking \<lparr>radiusInv = Fin (- (1 / 85)), badRadius = False,
                      px0 = Fin 0, py0 = Fin 0, px = Fin 0, py = Fin (- 70)\<rparr>),
      southward (Fin 100) (Fin 0))"
  by (subst updatePP.simps) (simp add: run_simps)

lemma updatePP_southward_150:
  "updatePP (southward (Fin 150) (Fin 0)) =
     (Inr (Tracking \<lparr>radiusInv = Fin (- (1 / 110)), badRadius = False,
                      px0 = Fin 0, py0 = Fin 0, px = Fin 0, py = Fin (- 70)\<rparr>),
      southward (Fin 150) (Fin 0))"
  by (subst updatePP.simps) (simp add: run_simps)

theorem updatePP_curvature_witness:
  "Math_cos (Math_PI / Fin 2 - (Math_atan2 (Fin (- 70) - Fin 100) (Fin 0 - Fin 0) - Fin 0)) /
     (Math_hypot (Fin 0 - Fin 0) (Fin (- 70) - Fin 100) / Fin 2) =
   (Fin 2 * Math_sin (Math_atan2 (Fin (- 70) - Fin 100) (Fin 0 - Fin 0) - Fin 0)) /
     Math_hypot (Fin 0 - Fin 0) (Fin (- 70) - Fin 100) \<and>
   (Fin 2 * Math_sin (Math_atan2 (Fin (- 70) - Fin 100) (Fin 0 - Fin 0) - Fin 0)) /
     Math_hypot (Fin 0 - Fin 0) (Fin (- 70) - Fin 100) = Fin (- (1 / 85))"
  using updatePP_curvature [OF updatePP_southward_100]
  by (simp add: Let_def southward_def idle_def minus_jsnum_def atan2_def)

lemma limitRadius_cases:
  assumes "(ri, br) = limitRadius a k"
  shows "(br \<longleftrightarrow> normalizeAngle a > Math_PI \<or> Math_abs k > Fin 1 / MIN_TURN_RADIUS) \<and>
         ri = (if br then (Math_sign k * Fin 1) / MIN_TURN_RADIUS else k)"
  using assms by (auto simp: limitRadius_def split: if_splits)

lemma limited_magnitude:
  assumes "k \<noteq> Fin 0" and "k \<noteq> NaN"
  shows "Math_abs ((Math_sign k * Fin 1) / MIN_TURN_RADIUS) = Fin 1 / MIN_TURN_RADIUS \<and>
         Math_sign ((Math_sign k * Fin 1) / MIN_TURN_RADIUS) = Math_sign k"
  using assms by (cases k) (auto simp: MIN_TURN_RADIUS_def sgn_real_def)

text \<open>
  C3, as the code behaves. The radius is limited, and \<open>badRadius\<close> set, exactly when
  \<open>\<pi>/2 - alpha\<close> brought into \<open>[0, 2\<pi>)\<close> exceeds \<open>\<pi>\<close>, or the magnitude of the
  curvature \<open>k = 2 sin(alpha) / L\<close> exceeds \<open>1/MIN_TURN_RADIUS\<close>. The returned curvature
  is then \<open>sign(k) / MIN_TURN_RADIUS\<close>, of magnitude \<open>1/MIN_TURN_RADIUS\<close> and with the
  sign of \<open>k\<close> when \<open>k\<close> is neither zero nor \<open>NaN\<close>; otherwise it is \<open>k\<close> and the flag
  is false. For a finite \<open>alpha\<close> the test on the angle says \<open>cos(alpha) < 0\<close>: the
  pursuit point is behind the robot.
\<close>

theorem updatePP_clamp:
  assumes "updatePP s = (Inr (Tracking r), s')"
  shows "let tx = px r - robotX s; ty = py r - robotY s;
             L = Math_hypot tx ty;
             alpha = Math_atan2 ty tx - robotDir s;
             k = (Fin 2 * Math_sin alpha) / L
         in (badRadius r \<longleftrightarrow>
               normalizeAngle (Math_PI / Fin 2 - alpha) > Math_PI \<or>
               Math_abs k > Fin 1 / MIN_TURN_RADIUS) \<and>
            radiusInv r = (if badRadius r then (Math_sign k * Fin 1) / MIN_TURN_RADIUS else k) \<and>
            (badRadius r \<and> k \<noteq> Fin 0 \<and> k \<noteq> NaN \<longrightarrow>
               Math_abs (radiusInv r) = Fin 1 / MIN_TURN_RADIUS \<and>
               Math_sign (radiusInv r) = Math_sign k) \<and>
            (\<forall>t. alpha = Fin t \<longrightarrow>
               (normalizeAngle (Math_PI / Fin 2 - alpha) > Math_PI \<longleftrightarrow> cos t < 0))"
proof -
  define alpha where "alpha = Math_atan2 (py r - robotY s) (px r - robotX s) - robotDir s"
  define k where "k = (Fin 2 * Math_sin alpha) / Math_hypot (px r - robotX s) (py r - robotY s)"
  from updatePP_Tracking [OF assms]
  have "(radiusInv r, badRadius r) = limitRadius (Math_PI / Fin 2 - alpha) k"
    by (simp add: arcAngle_def arcRadiusInv_sin alpha_def k_def)
  from limitRadius_cases [OF this] limited_magnitude [of k] behind_iff
  show ?thesis
    unfolding Let_def alpha_def [symmetric] k_def [symmetric] by auto
qed

theorem updatePP_clamp_witness:
  "badRadius \<lparr>radiusInv = Fin (- (1 / 85)), badRadius = False,
              px0 = Fin 0, py0 = Fin 0, px = Fin 0, py = Fin (- 70)\<rparr> =
     (normalizeAngle (Math_PI / Fin 2 - (Math_atan2 (Fin (- 70) - Fin 100) (Fin 0 - Fin 0) - Fin 0)) > Math_PI \<or>
      Math_abs ((Fin 2 * Math_sin (Math_atan2 (Fin (- 70) - Fin 100) (Fin 0 - Fin 0) - Fin 0)) /
        Math_hypot (Fin 0 - Fin 0) (Fin (- 70) - Fin 100)) > Fin 1 / MIN_TURN_RADIUS)"
  using updatePP_clamp [OF updatePP_southward_100]
  by (simp add: Let_def southward_def idle_def)

text \<open>
  The robot at \<open>(0, 150)\<close> heading along the \<open>x\<close> axis, the pursuit point at
  \<open>(0, -70)\<close>: \<open>alpha = -\<pi>/2\<close>, which is \<open>3\<pi>/2\<close> in \<open>[0, 2\<pi>)\<close> and exceeds \<open>\<pi>\<close>,
  the curvature is \<open>-1/110\<close>, and the radius is not limited.
\<close>

theorem updatePP_clamp_counterexample:
  "updatePP (southward (Fin 150) (Fin 0)) =
     (Inr (Tracking \<lparr>radiusInv = Fin (- (1 / 110)), badRadius = False,
                      px0 = Fin 0, py0 = Fin 0, px = Fin 0, py = Fin (- 70)\<rparr>),
      southward (Fin 150) (Fin 0)) \<and>
   Math_atan2 (Fin (- 70) - Fin 150) (Fin 0 - Fin 0) - Fin 0 = Fin (- (pi / 2)) \<and>
   normalizeAngle (Fin (- (pi / 2))) = Fin (3 * pi / 2) \<and>
   normalizeAngle (Fin (- (pi / 2))) > Math_PI"
proof -
  have c: "\<lceil>- (1 / 4) :: real\<rceil> = 0"
    by (rule ceiling_unique) simp_all
  have "Math_atan2 (Fin (- 70) - Fin 150) (Fin 0 - Fin 0) - Fin 0 = Fin (- (pi / 2))"
    by (simp add: minus_jsnum_def atan2_def)
  moreover have "normalizeAngle (Fin (- (pi / 2))) = Fin (3 * pi / 2)"
    by (simp add: normalizeAngle_def Math_PI_def trunc_def Let_def c)
  moreover have "normalizeAngle (Fin (- (pi / 2))) > Math_PI"
    by (simp add: normalizeAngle_gt_pi)
  ultimately show ?thesis using updatePP_southward_150 by simp
qed








section \<open>The pursuit point\<close>


























end
